theory Spec2Isabelle
  imports Complex_Main "HOL-Library.Word"
begin

unbundle bit_operations_syntax

section \<open>Bytes, decoded JSON and exceptions\<close>

text \<open>
  Python \<^verbatim>\<open>bytes\<close> values are lists of 8-bit words.
\<close>

type_synonym byte = "8 word"
type_synonym bytes = "byte list"

text \<open>
  The values \<^verbatim>\<open>msgspec.json.decode\<close> returns: \<^verbatim>\<open>None\<close>, booleans, integers,
  floats (idealised as reals), strings, lists and dictionaries. A dictionary is the
  list of its items in order, with distinct keys.
\<close>

datatype json =
    JNull
  | JBool bool
  | JInt int
  | JFloat real
  | JStr string
  | JArr "json list"
  | JObj "(string \<times> json) list"

text \<open>
  The exceptions the modelled functions can raise. A function that can raise returns
  a sum with the exception on the left. \<open>KeyError\<close> carries the missing key.
  \<open>ModuleAPIError\<close> carries \<^verbatim>\<open>api_endpoint\<close> and the two parts of its message, the
  error type and the error value (the source formats them into one string).
  \<open>TransportError\<close> stands for any exception raised by the HTTP exchange itself or
  by the decoding of the body.
\<close>

datatype error =
    ValueError
  | KeyError json
  | IndexError
  | TypeError
  | AttributeError
  | ModuleAPIError string string json
  | ModuleAuthError
  | TransportError

section \<open>The streaming chunk processor (\<^verbatim>\<open>_create_blowfish_decryptor\<close>)\<close>

text \<open>
  \<^verbatim>\<open>block_size = 2048\<close> and \<^verbatim>\<open>iv = b"\x00\x01\x02\x03\x04\x05\x06\x07"\<close> are
  the two constants of the function.
\<close>

definition block_size :: nat where
  "block_size = 2048"

definition iv :: bytes where
  "iv = [0, 1, 2, 3, 4, 5, 6, 7]"

text \<open>
  The cipher is the library call
  \<^verbatim>\<open>Blowfish.new(bf_key, Blowfish.MODE_CBC, iv).decrypt(block)\<close>. A fresh cipher
  object is made for every block, so the call is a function of the key, the
  initialisation vector and the block alone; it is a parameter \<open>decrypt\<close> of the model
  (the library accepts keys of 4 to 56 bytes and data whose length is a multiple of 8;
  the only data it is given here are blocks of 2048 bytes).

  The loop \<^verbatim>\<open>for i in range(0, len(chunk), block_size)\<close> with its accumulator
  \<^verbatim>\<open>result\<close>: \<open>dec\<close> is the cipher with key and vector fixed. Python's \<^verbatim>\<open>%\<close> and
  \<^verbatim>\<open>//\<close> on integers round towards minus infinity, as \<open>mod\<close> and \<open>div\<close> on
  \<^typ>\<open>int\<close> do.
\<close>

function process_loop :: "(bytes \<Rightarrow> bytes) \<Rightarrow> int \<Rightarrow> bytes \<Rightarrow> nat \<Rightarrow> bytes \<Rightarrow> bytes" where
  "process_loop dec base_block_index chunk i result =
     (if i < length chunk then
        let block = take block_size (drop i chunk);
            block_index = base_block_index + int (i div block_size);
            block' = (if block_index mod 3 = 0 \<and> length block = block_size
                      then dec block else block)
        in process_loop dec base_block_index chunk (i + block_size) (result @ block')
      else result)"
  by pat_completeness auto
termination
  by (relation "measure (\<lambda>(dec, b, chunk, i, result). length chunk - i)")
     (auto simp: block_size_def)

declare process_loop.simps [simp del]

text \<open>
  The closure \<^verbatim>\<open>process_chunk(chunk, chunk_index)\<close>, with the variables it captures
  (\<^verbatim>\<open>bf_key\<close>, \<^verbatim>\<open>blocks_per_chunk\<close>) as leading arguments.
\<close>

definition process_chunk ::
  "(bytes \<Rightarrow> bytes \<Rightarrow> bytes \<Rightarrow> bytes) \<Rightarrow> bytes \<Rightarrow> int \<Rightarrow> bytes \<Rightarrow> int \<Rightarrow> bytes" where
  "process_chunk decrypt bf_key blocks_per_chunk chunk chunk_index =
     process_loop (decrypt bf_key iv) (chunk_index * blocks_per_chunk) chunk 0 []"

text \<open>
  \<^verbatim>\<open>_create_blowfish_decryptor(bf_key, chunk_size)\<close>: the check of the chunk size,
  then the closure. \<^verbatim>\<open>chunk_size\<close> is a Python integer, so it may be zero or negative.
\<close>

definition create_blowfish_decryptor ::
  "(bytes \<Rightarrow> bytes \<Rightarrow> bytes \<Rightarrow> bytes) \<Rightarrow> bytes \<Rightarrow> int \<Rightarrow> error + (bytes \<Rightarrow> int \<Rightarrow> bytes)" where
  "create_blowfish_decryptor decrypt bf_key chunk_size =
     (if chunk_size mod int block_size \<noteq> 0 then Inl ValueError
      else Inr (process_chunk decrypt bf_key (chunk_size div int block_size)))"

text \<open>
  The driver of a download hands the processor the consecutive chunks of the stream,
  numbered from 0, and writes the results one after the other. These two functions
  state that splitting in the words of the specification: \<open>split_stream n\<close> cuts a
  stream into consecutive chunks of \<open>n\<close> bytes (the last may be shorter), and
  \<open>process_split\<close> runs a processor over the chunks with the indices \<open>k\<close>, \<open>k + 1\<close>, ...
  and concatenates the outputs.
\<close>

function split_stream :: "nat \<Rightarrow> 'a list \<Rightarrow> 'a list list" where
  "split_stream n xs =
     (if n = 0 \<or> xs = [] then [] else take n xs # split_stream n (drop n xs))"
  by pat_completeness auto
termination
  by (relation "measure (\<lambda>(n, xs). length xs)") auto

declare split_stream.simps [simp del]

fun process_split :: "(bytes \<Rightarrow> int \<Rightarrow> bytes) \<Rightarrow> int \<Rightarrow> bytes list \<Rightarrow> bytes" where
  "process_split proc k [] = []"
| "process_split proc k (c # cs) = proc c k @ process_split proc (k + 1) cs"

text \<open>
  The windows of a chunk as the specification describes them: consecutive windows of
  2048 bytes, each paired with its position, and the treatment of one window at
  absolute block index \<open>n\<close>.
\<close>

definition window_out :: "(bytes \<Rightarrow> bytes) \<Rightarrow> int \<Rightarrow> bytes \<Rightarrow> bytes" where
  "window_out dec n w = (if n mod 3 = 0 \<and> length w = block_size then dec w else w)"

definition windows :: "bytes \<Rightarrow> (nat \<times> bytes) list" where
  "windows chunk = (let ws = split_stream block_size chunk in zip [0..<length ws] ws)"

section \<open>The key deriver (\<^verbatim>\<open>get_blowfish_key\<close>)\<close>

text \<open>
  \<^verbatim>\<open>md5(str(track_id).encode()).hexdigest().encode("ascii")\<close>: the MD5 function of
  \<^verbatim>\<open>hashlib\<close> is a parameter \<open>md5\<close> from the encoded identifier to the raw digest;
  \<open>hexdigest\<close> writes every byte of a digest as two lowercase hexadecimal digits, in
  ASCII. A \<^typ>\<open>string\<close> is the identifier already encoded, one \<^typ>\<open>char\<close> a byte.
\<close>

definition hex_digit :: "nat \<Rightarrow> byte" where
  "hex_digit n = (if n < 10 then of_nat (48 + n) else of_nat (87 + n))"

definition hexdigest :: "bytes \<Rightarrow> bytes" where
  "hexdigest digest =
     concat (map (\<lambda>b. [hex_digit (unat b div 16), hex_digit (unat b mod 16)]) digest)"

text \<open>
  Indexing \<^verbatim>\<open>bytes\<close> with a non-negative index raises \<^verbatim>\<open>IndexError\<close> out of range.
\<close>

definition byte_at :: "bytes \<Rightarrow> nat \<Rightarrow> error + byte" where
  "byte_at bs i = (if i < length bs then Inr (bs ! i) else Inl IndexError)"

text \<open>
  One element of the generator
  \<^verbatim>\<open>md5_hash[i] ^ md5_hash[i + 16] ^ self.bf_secret[i]\<close>, its three reads from left to
  right, and the generator over \<^verbatim>\<open>range(16)\<close>, which stops at the first exception.
\<close>

definition key_byte :: "bytes \<Rightarrow> bytes \<Rightarrow> nat \<Rightarrow> error + byte" where
  "key_byte md5_hash bf_secret i =
     (case byte_at md5_hash i of Inl e \<Rightarrow> Inl e | Inr a \<Rightarrow>
      case byte_at md5_hash (i + 16) of Inl e \<Rightarrow> Inl e | Inr b \<Rightarrow>
      case byte_at bf_secret i of Inl e \<Rightarrow> Inl e | Inr c \<Rightarrow>
      Inr (a XOR b XOR c))"

fun collect :: "(nat \<Rightarrow> error + byte) \<Rightarrow> nat list \<Rightarrow> error + bytes" where
  "collect f [] = Inr []"
| "collect f (i # is) =
     (case f i of Inl e \<Rightarrow> Inl e | Inr x \<Rightarrow>
      case collect f is of Inl e \<Rightarrow> Inl e | Inr xs \<Rightarrow> Inr (x # xs))"

definition get_blowfish_key :: "(string \<Rightarrow> bytes) \<Rightarrow> bytes \<Rightarrow> string \<Rightarrow> error + bytes" where
  "get_blowfish_key md5 bf_secret track_id =
     (let md5_hash = hexdigest (md5 track_id)
      in collect (key_byte md5_hash bf_secret) [0..<16])"

section \<open>Operations on decoded JSON\<close>

text \<open>
  Python's truth value of a decoded value (\<^verbatim>\<open>not x\<close>, \<^verbatim>\<open>if x\<close>).
\<close>

fun truthy :: "json \<Rightarrow> bool" where
  "truthy JNull = False"
| "truthy (JBool b) = b"
| "truthy (JInt n) = (n \<noteq> 0)"
| "truthy (JFloat x) = (x \<noteq> 0)"
| "truthy (JStr s) = (s \<noteq> [])"
| "truthy (JArr xs) = (xs \<noteq> [])"
| "truthy (JObj kvs) = (kvs \<noteq> [])"

text \<open>
  \<^verbatim>\<open>v[k]\<close> with a string key: a dictionary gives the value or \<^verbatim>\<open>KeyError\<close>, every
  other value raises \<^verbatim>\<open>TypeError\<close>.
\<close>

fun subscript :: "json \<Rightarrow> string \<Rightarrow> error + json" where
  "subscript (JObj kvs) k =
     (case map_of kvs k of None \<Rightarrow> Inl (KeyError (JStr k)) | Some v \<Rightarrow> Inr v)"
| "subscript v k = Inl TypeError"

text \<open>
  \<^verbatim>\<open>v[n]\<close> with a non-negative integer: a list gives its element or \<^verbatim>\<open>IndexError\<close>,
  a string its character as a string or \<^verbatim>\<open>IndexError\<close>, a dictionary (whose keys are
  strings) \<^verbatim>\<open>KeyError\<close>, every other value \<^verbatim>\<open>TypeError\<close>.
\<close>

fun index :: "json \<Rightarrow> nat \<Rightarrow> error + json" where
  "index (JArr xs) n = (if n < length xs then Inr (xs ! n) else Inl IndexError)"
| "index (JStr s) n = (if n < length s then Inr (JStr [s ! n]) else Inl IndexError)"
| "index (JObj kvs) n = Inl (KeyError (JInt (int n)))"
| "index v n = Inl TypeError"

text \<open>
  \<^verbatim>\<open>v.get(k)\<close>: defined on dictionaries only (\<^verbatim>\<open>None\<close> for a missing key).
\<close>

fun py_get :: "json \<Rightarrow> string \<Rightarrow> error + json" where
  "py_get (JObj kvs) k = Inr (case map_of kvs k of None \<Rightarrow> JNull | Some v \<Rightarrow> v)"
| "py_get v k = Inl AttributeError"

text \<open>
  \<^verbatim>\<open>list(v.keys())[0]\<close> together with \<^verbatim>\<open>list(v.values())[0]\<close>: the first item of a
  dictionary.
\<close>

fun first_item :: "json \<Rightarrow> error + (string \<times> json)" where
  "first_item (JObj []) = Inl IndexError"
| "first_item (JObj (kv # kvs)) = Inr kv"
| "first_item v = Inl AttributeError"

text \<open>A chain of subscripts \<^verbatim>\<open>v[a][b]...\<close>, evaluated from left to right.\<close>

datatype sel = Key string | Idx nat

fun lookup :: "json \<Rightarrow> sel list \<Rightarrow> error + json" where
  "lookup v [] = Inr v"
| "lookup v (Key k # ps) = (case subscript v k of Inl e \<Rightarrow> Inl e | Inr x \<Rightarrow> lookup x ps)"
| "lookup v (Idx n # ps) = (case index v n of Inl e \<Rightarrow> Inl e | Inr x \<Rightarrow> lookup x ps)"

section \<open>The client and its environment\<close>

text \<open>
  The mutable fields of a \<^verbatim>\<open>DeezerApi\<close> object. The four fields the gateway fills
  from a response hold whatever value the response carries, so they are \<^typ>\<open>json\<close>
  values; \<open>arl\<close> is \<^verbatim>\<open>_arl\<close>; \<open>cookie_jar\<close> is the cookie jar of the HTTP session as
  far as the client writes it. Two ghost fields record the effects on the outside:
  \<open>requests\<close> is the list of HTTP requests sent so far, oldest first, and
  \<open>clock_reads\<close> counts the calls of \<^verbatim>\<open>time()\<close>.
\<close>

datatype request =
    GwPost string json json
  | MediaPost json

record client =
  api_token :: json
  country :: json
  license_token :: json
  language :: json
  renew_timestamp :: int
  available_formats :: "string list"
  arl :: string
  cookie_jar :: "string \<rightharpoonup> string"
  requests :: "request list"
  clock_reads :: nat

text \<open>The state \<^verbatim>\<open>__init__\<close> sets up.\<close>

definition init_client :: client where
  "init_client =
     \<lparr>api_token = JStr [], country = JStr [], license_token = JStr [],
      language = JStr ''en'', renew_timestamp = 0, available_formats = [''MP3_128''],
      arl = [], cookie_jar = Map.empty, requests = [], clock_reads = 0\<rparr>"

text \<open>
  The outside world: \<open>respond\<close> gives the outcome of an HTTP exchange from the list of
  all requests sent so far, the current one last (so the service may answer the same
  request differently at different times); \<open>clock\<close> gives the value of the \<open>n\<close>-th
  call of \<^verbatim>\<open>time()\<close>, a float idealised as a real. A request of the gateway is
  recorded with its \<^verbatim>\<open>method\<close>, its \<^verbatim>\<open>api_token\<close> parameter and its payload; the
  random \<^verbatim>\<open>cid\<close> parameter is left out.
\<close>

datatype reply = NetFail | Body json

record world =
  respond :: "request list \<Rightarrow> reply"
  clock :: "nat \<Rightarrow> real"

type_synonym 'a result = "(error + 'a) \<times> client"

definition py_time :: "world \<Rightarrow> client \<Rightarrow> real \<times> client" where
  "py_time w s = (clock w (clock_reads s), s\<lparr>clock_reads := Suc (clock_reads s)\<rparr>)"

definition post :: "world \<Rightarrow> client \<Rightarrow> request \<Rightarrow> reply \<times> client" where
  "post w s req =
     (let s' = s\<lparr>requests := requests s @ [req]\<rparr> in (respond w (requests s'), s'))"

section \<open>The gateway call (\<^verbatim>\<open>_gw_api_call\<close>)\<close>

definition auth_methods :: "string list" where
  "auth_methods = [''deezer.getUserData'', ''user.getArl'']"

text \<open>
  Lines 148 to 160: the update of the session from the response of
  \<^verbatim>\<open>deezer.getUserData\<close>. The assignments are made one after the other, so an
  exception raised by a later lookup leaves the earlier assignments in place.
\<close>

definition update_session :: "world \<Rightarrow> client \<Rightarrow> json \<Rightarrow> unit result" where
  "update_session w s data =
     (case subscript data ''results'' of Inl e \<Rightarrow> (Inl e, s) | Inr results \<Rightarrow>
      case subscript results ''checkForm'' of Inl e \<Rightarrow> (Inl e, s) | Inr v1 \<Rightarrow>
      let s1 = s\<lparr>api_token := v1\<rparr> in
      case subscript results ''COUNTRY'' of Inl e \<Rightarrow> (Inl e, s1) | Inr v2 \<Rightarrow>
      let s2 = s1\<lparr>country := v2\<rparr> in
      case lookup results [Key ''USER'', Key ''OPTIONS'', Key ''license_token''] of
        Inl e \<Rightarrow> (Inl e, s2) | Inr v3 \<Rightarrow>
      let s3 = s2\<lparr>license_token := v3\<rparr>;
          (now, s3') = py_time w s3;
          s4 = s3'\<lparr>renew_timestamp := \<lceil>now\<rceil>\<rparr> in
      case lookup results [Key ''USER'', Key ''SETTING'', Key ''global'', Key ''language''] of
        Inl e \<Rightarrow> (Inl e, s4) | Inr v5 \<Rightarrow>
      let s5 = s4\<lparr>language := v5\<rparr>;
          s6 = s5\<lparr>available_formats := [''MP3_128'']\<rparr> in
      case lookup results [Key ''USER'', Key ''OPTIONS''] of Inl e \<Rightarrow> (Inl e, s6) | Inr o1 \<Rightarrow>
      case py_get o1 ''web_hq'' of Inl e \<Rightarrow> (Inl e, s6) | Inr hq \<Rightarrow>
      let s7 = (if truthy hq
                then s6\<lparr>available_formats := available_formats s6 @ [''MP3_320'']\<rparr>
                else s6) in
      case lookup results [Key ''USER'', Key ''OPTIONS''] of Inl e \<Rightarrow> (Inl e, s7) | Inr o2 \<Rightarrow>
      case py_get o2 ''web_lossless'' of Inl e \<Rightarrow> (Inl e, s7) | Inr lossless \<Rightarrow>
      let s8 = (if truthy lossless
                then s7\<lparr>available_formats := available_formats s7 @ [''FLAC'']\<rparr>
                else s7) in
      (Inr (), s8))"

text \<open>
  Lines 137 to 162: what is done with the decoded body \<^verbatim>\<open>data\<close> of the response. An
  error envelope raises \<^verbatim>\<open>ModuleAPIError\<close> with the first item of the envelope; the
  response of \<^verbatim>\<open>deezer.getUserData\<close> updates the session; the result is
  \<^verbatim>\<open>data["results"]\<close>.
\<close>

definition handle_reply :: "world \<Rightarrow> client \<Rightarrow> string \<Rightarrow> json \<Rightarrow> json result" where
  "handle_reply w s method data =
     (case py_get data ''error'' of Inl e \<Rightarrow> (Inl e, s) | Inr err \<Rightarrow>
      if truthy err then
        (case first_item err of Inl e \<Rightarrow> (Inl e, s)
         | Inr (error_type, error_msg) \<Rightarrow>
             (Inl (ModuleAPIError method error_type error_msg), s))
      else
        case (if method = ''deezer.getUserData'' then update_session w s data
              else (Inr (), s)) of
          (Inl e, s2) \<Rightarrow> (Inl e, s2)
        | (Inr u, s2) \<Rightarrow>
            (case subscript data ''results'' of Inl e \<Rightarrow> (Inl e, s2)
             | Inr results \<Rightarrow> (Inr results, s2)))"

text \<open>
  Lines 117 to 135: the request itself, after the auto-relogin test. The token sent
  is empty for the two authentication methods.
\<close>

definition gw_request :: "world \<Rightarrow> client \<Rightarrow> string \<Rightarrow> json \<Rightarrow> json result" where
  "gw_request w s method payload =
     (let api_token_sent = (if method \<notin> set auth_methods then api_token s else JStr []);
          (rep, s1) = post w s (GwPost method api_token_sent payload) in
      case rep of NetFail \<Rightarrow> (Inl TransportError, s1)
      | Body data \<Rightarrow> handle_reply w s1 method data)"

text \<open>
  The whole call. The payload argument is optional (\<^verbatim>\<open>None\<close> becomes the empty
  dictionary). With an empty token and a stored credential a call of another method
  first calls itself with \<^verbatim>\<open>deezer.getUserData\<close>; that inner call is of an
  authentication method and goes no deeper, which is the termination argument.
\<close>

function gw_api_call :: "world \<Rightarrow> client \<Rightarrow> string \<Rightarrow> json option \<Rightarrow> json result" where
  "gw_api_call w s method payload0 =
     (let payload = (case payload0 of None \<Rightarrow> JObj [] | Some p \<Rightarrow> p) in
      case (if \<not> truthy (api_token s) \<and> arl s \<noteq> [] \<and> method \<notin> set auth_methods
            then gw_api_call w s ''deezer.getUserData'' None
            else (Inr JNull, s)) of
        (Inl e, s1) \<Rightarrow> (Inl e, s1)
      | (Inr u, s1) \<Rightarrow> gw_request w s1 method payload)"
  by pat_completeness auto
termination
  by (relation "measure (\<lambda>(w, s, method, payload0). if method \<in> set auth_methods then 0 else 1)")
     (auto simp: auth_methods_def)

declare gw_api_call.simps [simp del]

section \<open>Login with a stored credential (\<^verbatim>\<open>login_via_arl\<close>)\<close>

definition login_via_arl :: "world \<Rightarrow> client \<Rightarrow> string \<Rightarrow> json result" where
  "login_via_arl w s a =
     (let s1 = s\<lparr>arl := a\<rparr>;
          s2 = s1\<lparr>cookie_jar := (cookie_jar s1)(''arl'' \<mapsto> a)\<rparr> in
      case gw_api_call w s2 ''deezer.getUserData'' None of
        (Inl e, s3) \<Rightarrow> (Inl e, s3)
      | (Inr user_data, s3) \<Rightarrow>
          (case lookup user_data [Key ''USER'', Key ''USER_ID''] of
             Inl e \<Rightarrow> (Inl e, s3)
           | Inr user_id \<Rightarrow>
               if \<not> truthy user_id
               then (Inl ModuleAuthError, s3\<lparr>cookie_jar := Map.empty, arl := []\<rparr>)
               else (Inr user_data, s3)))"

section \<open>Resolving the stream URL (\<^verbatim>\<open>get_track_url\<close>)\<close>

text \<open>
  The function in its three parts. Lines 505 to 507: the session is refreshed when
  the license token is an hour old.
\<close>

definition renew_license :: "world \<Rightarrow> client \<Rightarrow> unit result" where
  "renew_license w s =
     (let (now, s1) = py_time w s in
      if now - real_of_int (renew_timestamp s1) \<ge> 3600
      then (case gw_api_call w s1 ''deezer.getUserData'' None of
              (Inl e, s2) \<Rightarrow> (Inl e, s2)
            | (Inr u, s2) \<Rightarrow> (Inr (), s2))
      else (Inr (), s1))"

text \<open>
  Lines 509 to 515: the track token is fetched again when it has expired; the result
  is the token to use.
\<close>

definition track_token_payload :: "string \<Rightarrow> json" where
  "track_token_payload track_id =
     JObj [(''sng_id'', JStr track_id), (''array_default'', JArr [JStr ''TRACK_TOKEN''])]"

definition renew_track_token :: "world \<Rightarrow> client \<Rightarrow> string \<Rightarrow> json \<Rightarrow> real \<Rightarrow> json result" where
  "renew_track_token w s track_id track_token track_token_expiry =
     (let (now, s1) = py_time w s in
      if now \<ge> track_token_expiry
      then (case gw_api_call w s1 ''song.getData'' (Some (track_token_payload track_id)) of
              (Inl e, s2) \<Rightarrow> (Inl e, s2)
            | (Inr result, s2) \<Rightarrow>
                (case subscript result ''TRACK_TOKEN'' of
                   Inl e \<Rightarrow> (Inl e, s2)
                 | Inr t \<Rightarrow> (Inr t, s2)))
      else (Inr track_token, s1))"

text \<open>
  Lines 517 to 531: the media request and the path
  \<^verbatim>\<open>data["data"][0]["media"][0]["sources"][0]["url"]\<close> into its response.
\<close>

definition media_payload :: "json \<Rightarrow> string \<Rightarrow> json \<Rightarrow> json" where
  "media_payload license audio_format track_token =
     JObj [(''license_token'', license),
           (''media'', JArr [JObj [(''type'', JStr ''FULL''),
              (''formats'', JArr [JObj [(''cipher'', JStr ''BF_CBC_STRIPE''),
                                         (''format'', JStr audio_format)]])]]),
           (''track_tokens'', JArr [track_token])]"

definition media_url :: "json \<Rightarrow> error + json" where
  "media_url data =
     lookup data [Key ''data'', Idx 0, Key ''media'', Idx 0, Key ''sources'', Idx 0, Key ''url'']"

definition request_media :: "world \<Rightarrow> client \<Rightarrow> json \<Rightarrow> string \<Rightarrow> json result" where
  "request_media w s track_token audio_format =
     (let payload = media_payload (license_token s) audio_format track_token;
          (rep, s1) = post w s (MediaPost payload) in
      case rep of NetFail \<Rightarrow> (Inl TransportError, s1)
      | Body data \<Rightarrow> (media_url data, s1))"

definition get_track_url ::
  "world \<Rightarrow> client \<Rightarrow> string \<Rightarrow> json \<Rightarrow> real \<Rightarrow> string \<Rightarrow> json result" where
  "get_track_url w s track_id track_token track_token_expiry audio_format =
     (case renew_license w s of
        (Inl e, s1) \<Rightarrow> (Inl e, s1)
      | (Inr u, s1) \<Rightarrow>
          (case renew_track_token w s1 track_id track_token track_token_expiry of
             (Inl e, s2) \<Rightarrow> (Inl e, s2)
           | (Inr t, s2) \<Rightarrow> request_media w s2 t audio_format))"

section \<open>Auxiliary definitions\<close>

text \<open>
  The loop started at \<open>i = 0\<close> with an empty accumulator, named for the proofs.
\<close>

definition run :: "(bytes \<Rightarrow> bytes) \<Rightarrow> int \<Rightarrow> bytes \<Rightarrow> bytes" where
  "run dec b chunk = process_loop dec b chunk 0 []"

text \<open>The exceptions that the subscripts and lookups on decoded values raise.\<close>

fun lookup_error :: "error \<Rightarrow> bool" where
  "lookup_error (KeyError k) = True"
| "lookup_error IndexError = True"
| "lookup_error TypeError = True"
| "lookup_error AttributeError = True"
| "lookup_error e = False"

text \<open>The request a gateway call of \<open>method\<close> sends in state \<open>s\<close>.\<close>

definition sent_request :: "client \<Rightarrow> string \<Rightarrow> json \<Rightarrow> request" where
  "sent_request s method payload =
     GwPost method (if method \<notin> set auth_methods then api_token s else JStr []) payload"

text \<open>
  The session fields of \<open>s\<close> are the ones the response \<open>ud\<close> of
  \<^verbatim>\<open>deezer.getUserData\<close> carries: token, country, license token, language, and the
  formats the two entitlement flags give on top of \<^verbatim>\<open>MP3_128\<close>.
\<close>

fun session_from :: "json \<Rightarrow> client \<Rightarrow> bool" where
  "session_from ud s =
     (subscript ud ''checkForm'' = Inr (api_token s) \<and>
      subscript ud ''COUNTRY'' = Inr (country s) \<and>
      lookup ud [Key ''USER'', Key ''OPTIONS'', Key ''license_token''] = Inr (license_token s) \<and>
      lookup ud [Key ''USER'', Key ''SETTING'', Key ''global'', Key ''language''] = Inr (language s) \<and>
      (case lookup ud [Key ''USER'', Key ''OPTIONS''] of
         Inl e \<Rightarrow> False
       | Inr opts \<Rightarrow>
           (case (py_get opts ''web_hq'', py_get opts ''web_lossless'') of
              (Inr hq, Inr lossless) \<Rightarrow>
                available_formats s =
                  [''MP3_128''] @ (if truthy hq then [''MP3_320''] else []) @
                  (if truthy lossless then [''FLAC''] else [])
            | _ \<Rightarrow> False)))"

declare session_from.simps [simp del]

text \<open>
  A sample service for the examples: it answers \<^verbatim>\<open>deezer.getUserData\<close> with \<open>boot\<close>,
  every other gateway method with a track token, the media request with \<open>media\<close>,
  and its clock stands at \<open>now\<close>. \<open>bootstrap_reply\<close> is a well-formed response of
  \<^verbatim>\<open>deezer.getUserData\<close>.
\<close>

definition bootstrap_reply :: "json \<Rightarrow> json \<Rightarrow> json \<Rightarrow> json \<Rightarrow> json" where
  "bootstrap_reply token user_id hq lossless =
     JObj [(''results'', JObj
       [(''checkForm'', token), (''COUNTRY'', JStr ''US''),
        (''USER'', JObj
          [(''USER_ID'', user_id),
           (''OPTIONS'', JObj [(''license_token'', JStr ''L1''),
                               (''web_hq'', hq), (''web_lossless'', lossless)]),
           (''SETTING'', JObj [(''global'', JObj [(''language'', JStr ''en'')])])])])]"

definition sample_service :: "json \<Rightarrow> json \<Rightarrow> real \<Rightarrow> world" where
  "sample_service boot media now =
     \<lparr>respond = (\<lambda>h. case last h of
          GwPost m t p \<Rightarrow>
            if m = ''deezer.getUserData'' then Body boot
            else Body (JObj [(''results'', JObj [(''TRACK_TOKEN'', JStr ''T2'')])])
        | MediaPost p \<Rightarrow> Body media),
      clock = (\<lambda>n. now)\<rparr>"

text \<open>
  The two kinds of request, the request of a session bootstrap, and a media response
  with exactly one candidate source.
\<close>

fun is_media :: "request \<Rightarrow> bool" where
  "is_media (MediaPost p) = True"
| "is_media (GwPost m t p) = False"

definition bootstrap_request :: request where
  "bootstrap_request = GwPost ''deezer.getUserData'' (JStr []) (JObj [])"

definition one_source :: "json \<Rightarrow> json" where
  "one_source url =
     JObj [(''data'', JArr [JObj [(''media'', JArr [JObj [(''sources'', JArr [JObj [(''url'', url)]])]])]])]"


section \<open>Properties of the chunk processor\<close>

lemma process_loop_step:
  "i < length chunk \<Longrightarrow>
   process_loop dec b chunk i r =
   process_loop dec b chunk (i + block_size)
     (r @ window_out dec (b + int (i div block_size)) (take block_size (drop i chunk)))"
  by (subst process_loop.simps) (simp add: Let_def window_out_def)

lemma process_loop_done:
  "\<not> i < length chunk \<Longrightarrow> process_loop dec b chunk i r = r"
  by (subst process_loop.simps) simp

lemma process_loop_result:
  "process_loop dec b chunk i r = r @ process_loop dec b chunk i []"
proof (induction "length chunk - i" arbitrary: i r rule: less_induct)
  case less
  show ?case
  proof (cases "i < length chunk")
    case True
    let ?out = "window_out dec (b + int (i div block_size)) (take block_size (drop i chunk))"
    have smaller: "length chunk - (i + block_size) < length chunk - i"
      using True by (simp add: block_size_def)
    have "process_loop dec b chunk i r = process_loop dec b chunk (i + block_size) (r @ ?out)"
      using True by (rule process_loop_step)
    also have "\<dots> = (r @ ?out) @ process_loop dec b chunk (i + block_size) []"
      by (rule less [OF smaller])
    also have "\<dots> = r @ process_loop dec b chunk (i + block_size) ([] @ ?out)"
      using less [OF smaller, of "[] @ ?out"] by simp
    also have "process_loop dec b chunk (i + block_size) ([] @ ?out) = process_loop dec b chunk i []"
      using True by (rule process_loop_step [symmetric])
    finally show ?thesis .
  next
    case False
    then show ?thesis by (simp add: process_loop_done)
  qed
qed

text \<open>Shifting the loop by one block.\<close>

lemma process_loop_shift:
  "process_loop dec b chunk (i + block_size) r =
   process_loop dec (b + 1) (drop block_size chunk) i r"
proof (induction "length chunk - i" arbitrary: i r rule: less_induct)
  case less
  show ?case
  proof (cases "i + block_size < length chunk")
    case True
    then have lt: "i < length (drop block_size chunk)" by simp
    have smaller: "length chunk - (i + block_size) < length chunk - i"
      using True by (simp add: block_size_def)
    have idx: "b + int ((i + block_size) div block_size) = b + 1 + int (i div block_size)"
      by (simp add: block_size_def)
    have blk: "take block_size (drop (i + block_size) chunk) =
               take block_size (drop i (drop block_size chunk))"
      by (simp add: add.commute)
    show ?thesis
      by (subst process_loop_step [OF True], subst process_loop_step [OF lt])
         (simp only: idx blk less [OF smaller])
  next
    case False
    then have "\<not> i < length (drop block_size chunk)" by simp
    with False show ?thesis by (simp add: process_loop_done)
  qed
qed

lemma run_Nil: "run dec b [] = []"
  by (simp add: run_def process_loop_done)

lemma run_unfold:
  "chunk \<noteq> [] \<Longrightarrow>
   run dec b chunk = window_out dec b (take block_size chunk) @ run dec (b + 1) (drop block_size chunk)"
proof -
  assume ne: "chunk \<noteq> []"
  then have lt: "0 < length chunk" by simp
  have "run dec b chunk = process_loop dec b chunk (0 + block_size) ([] @ window_out dec b (take block_size chunk))"
    unfolding run_def using process_loop_step [OF lt, of dec b "[]"] by simp
  also have "\<dots> = window_out dec b (take block_size chunk) @ process_loop dec b chunk (0 + block_size) []"
    by (subst process_loop_result) simp
  also have "process_loop dec b chunk (0 + block_size) [] = run dec (b + 1) (drop block_size chunk)"
    unfolding run_def by (rule process_loop_shift)
  finally show ?thesis .
qed


lemma run_append:
  "length xs = n * block_size \<Longrightarrow> run dec b (xs @ ys) = run dec b xs @ run dec (b + int n) ys"
proof (induction n arbitrary: xs b)
  case 0
  then show ?case by (simp add: run_Nil)
next
  case (Suc n)
  from Suc.prems have len: "length xs = block_size + n * block_size" by simp
  then have ne: "xs \<noteq> []" "xs @ ys \<noteq> []" by (auto simp: block_size_def)
  have tk: "take block_size (xs @ ys) = take block_size xs" using len by simp
  have dr: "drop block_size (xs @ ys) = drop block_size xs @ ys" using len by simp
  have "length (drop block_size xs) = n * block_size" using len by simp
  from Suc.IH [OF this, of "b + 1"]
  have "run dec (b + 1) (drop block_size xs @ ys) =
        run dec (b + 1) (drop block_size xs) @ run dec (b + 1 + int n) ys" .
  moreover have "b + 1 + int n = b + int (Suc n)" by simp
  ultimately have "run dec (b + 1) (drop block_size xs @ ys) =
        run dec (b + 1) (drop block_size xs) @ run dec (b + int (Suc n)) ys"
    by (simp only:)
  then show ?case
    by (simp only: run_unfold [OF ne(1)] run_unfold [OF ne(2)] tk dr append_assoc)
qed

lemma run_short:
  "length chunk \<le> block_size \<Longrightarrow> run dec b chunk = (if chunk = [] then [] else window_out dec b chunk)"
  by (cases "chunk = []") (simp_all add: run_Nil run_unfold)

lemma run_split:
  "0 < m \<Longrightarrow>
   run dec (k * int m) xs =
   process_split (\<lambda>c idx. run dec (idx * int m) c) k (split_stream (m * block_size) xs)"
proof (induction "length xs" arbitrary: xs k rule: less_induct)
  case less
  let ?n = "m * block_size"
  have npos: "0 < ?n" using less.prems by (simp add: block_size_def)
  show ?case
  proof (cases "xs = []")
    case True
    then show ?thesis by (simp add: split_stream.simps run_Nil)
  next
    case False
    have shorter: "length (drop ?n xs) < length xs" using False npos by simp
    have rest: "run dec ((k + 1) * int m) (drop ?n xs) =
                process_split (\<lambda>c idx. run dec (idx * int m) c) (k + 1) (split_stream ?n (drop ?n xs))"
      by (rule less.hyps [OF shorter less.prems])
    have head: "run dec (k * int m) xs =
                run dec (k * int m) (take ?n xs) @ run dec ((k + 1) * int m) (drop ?n xs)"
    proof (cases "?n \<le> length xs")
      case True
      then have "length (take ?n xs) = m * block_size" by simp
      from run_append [OF this, of dec "k * int m" "drop ?n xs"]
      show ?thesis by (simp add: algebra_simps)
    next
      case False
      then show ?thesis by (simp add: run_Nil)
    qed
    show ?thesis
      using False npos
      by (subst split_stream.simps) (simp add: head rest)
  qed
qed

lemma run_windows_from:
  "run dec (b + int k) chunk =
   concat (map (\<lambda>(j, w). window_out dec (b + int j) w)
     (zip [k..<k + length (split_stream block_size chunk)] (split_stream block_size chunk)))"
proof (induction "length chunk" arbitrary: chunk k rule: less_induct)
  case less
  show ?case
  proof (cases "chunk = []")
    case True
    then show ?thesis by (simp add: split_stream.simps run_Nil)
  next
    case False
    have shorter: "length (drop block_size chunk) < length chunk"
      using False by (simp add: block_size_def)
    have sp: "split_stream block_size chunk =
              take block_size chunk # split_stream block_size (drop block_size chunk)"
      using False by (subst split_stream.simps) (simp add: block_size_def)
    let ?ws = "split_stream block_size (drop block_size chunk)"
    have rest: "run dec (b + int (Suc k)) (drop block_size chunk) =
          concat (map (\<lambda>(j, w). window_out dec (b + int j) w)
            (zip [Suc k..<Suc k + length ?ws] ?ws))"
      by (rule less [OF shorter])
    have idx: "b + int k + 1 = b + int (Suc k)" by simp
    have ups: "[k..<k + length (take block_size chunk # ?ws)] = k # [Suc k..<Suc k + length ?ws]"
      by (simp add: upt_rec [of k] del: upt_Suc)
    show ?thesis
      by (simp only: run_unfold [OF False] sp ups idx rest
            zip_Cons_Cons list.map concat.simps prod.case)
  qed
qed


lemma length_window_out:
  "\<forall>w. length w = block_size \<longrightarrow> length (dec w) = block_size \<Longrightarrow>
   length (window_out dec n w) = length w"
  by (simp add: window_out_def)

lemma length_run:
  assumes "\<forall>w. length w = block_size \<longrightarrow> length (dec w) = block_size"
  shows "length (run dec b chunk) = length chunk"
proof (induction "length chunk" arbitrary: chunk b rule: less_induct)
  case less
  show ?case
  proof (cases "chunk = []")
    case True
    then show ?thesis by (simp add: run_Nil)
  next
    case False
    have shorter: "length (drop block_size chunk) < length chunk"
      using False by (simp add: block_size_def)
    show ?thesis
      by (simp add: run_unfold [OF False] less [OF shorter] length_window_out [OF assms])
  qed
qed

lemma take_run:
  assumes "\<forall>w. length w = block_size \<longrightarrow> length (dec w) = block_size"
  shows "take block_size (run dec b chunk) = window_out dec b (take block_size chunk)"
proof (cases "chunk = []")
  case True
  then show ?thesis by (simp add: run_Nil window_out_def block_size_def)
next
  case False
  have lw: "length (window_out dec b (take block_size chunk)) = min (length chunk) block_size"
    by (simp add: length_window_out [OF assms])
  show ?thesis
  proof (cases "block_size \<le> length chunk")
    case True
    then show ?thesis using lw by (simp add: run_unfold [OF False])
  next
    case short: False
    then have "drop block_size chunk = []" by simp
    then show ?thesis using lw short by (simp add: run_unfold [OF False] run_Nil)
  qed
qed

lemma drop_run:
  assumes "\<forall>w. length w = block_size \<longrightarrow> length (dec w) = block_size"
  shows "drop (j * block_size) (run dec b chunk) = run dec (b + int j) (drop (j * block_size) chunk)"
proof (induction j arbitrary: b chunk)
  case 0
  then show ?case by simp
next
  case (Suc j)
  show ?case
  proof (cases "block_size \<le> length chunk")
    case True
    then have ne: "chunk \<noteq> []" by (auto simp: block_size_def)
    have lw: "length (window_out dec b (take block_size chunk)) = block_size"
      using True by (simp add: length_window_out [OF assms])
    have idx: "b + 1 + int j = b + int (Suc j)" by simp
    have "drop (Suc j * block_size) (run dec b chunk) =
          drop (j * block_size) (run dec (b + 1) (drop block_size chunk))"
      using lw by (simp add: run_unfold [OF ne])
    also have "\<dots> = run dec (b + 1 + int j) (drop (j * block_size) (drop block_size chunk))"
      by (rule Suc.IH)
    also have "\<dots> = run dec (b + int (Suc j)) (drop (Suc j * block_size) chunk)"
      by (simp only: idx) (simp add: add.commute)
    finally show ?thesis .
  next
    case False
    then have "length (run dec b chunk) < block_size"
      by (simp add: length_run [OF assms])
    then have "drop (Suc j * block_size) (run dec b chunk) = []" by simp
    moreover have "drop (Suc j * block_size) chunk = []" using False by simp
    ultimately show ?thesis by (simp add: run_Nil)
  qed
qed

text \<open>
  Claim C4, as amended. The processor is refused with \<open>ValueError\<close> exactly when the
  chunk size is not a multiple of 2048, and otherwise made with
  \<open>chunk_size div 2048\<close> blocks per chunk: 2047 is refused; 2048, 1048576 and also 0
  are accepted (0 is a multiple of 2048, and the code has no test of the sign). The
  function reads no session state and performs no request: the check is made when the
  processor is set up.
\<close>

theorem chunk_size_check:
  "(create_blowfish_decryptor decrypt bf_key chunk_size = Inl ValueError) = (chunk_size mod 2048 \<noteq> 0)
   \<and> (create_blowfish_decryptor decrypt bf_key chunk_size =
        Inr (process_chunk decrypt bf_key (chunk_size div 2048))) = (chunk_size mod 2048 = 0)
   \<and> create_blowfish_decryptor decrypt bf_key 2047 = Inl ValueError
   \<and> create_blowfish_decryptor decrypt bf_key 2048 = Inr (process_chunk decrypt bf_key 1)
   \<and> create_blowfish_decryptor decrypt bf_key 1048576 = Inr (process_chunk decrypt bf_key 512)
   \<and> create_blowfish_decryptor decrypt bf_key 0 = Inr (process_chunk decrypt bf_key 0)"
  by (simp add: create_blowfish_decryptor_def block_size_def)

text \<open>
  The claim as stated asks for a positive multiple: 0 is not one, and it is accepted.
\<close>

theorem chunk_size_zero_accepted:
  "\<not> (0 < (0::int) \<and> (0::int) mod 2048 = 0) \<and>
   create_blowfish_decryptor (\<lambda>k v b. b) [] 0 \<noteq> Inl ValueError"
  by (simp add: create_blowfish_decryptor_def block_size_def)

text \<open>
  Claim C1. The output of the chunk processor is the concatenation, in order, of the
  treated windows of the chunk: a window is deciphered exactly when it has the full
  2048 bytes and its absolute block index (chunk index times blocks per chunk, plus
  its position) is divisible by 3, and is copied unchanged otherwise, a final
  shorter window included. For a stream of 5000 bytes given as one chunk with index 0
  the output is the deciphered block 0 followed by the input from byte 2048 on.
\<close>

theorem process_chunk_windows:
  "process_chunk decrypt bf_key blocks_per_chunk chunk chunk_index =
     concat (map (\<lambda>(j, w). window_out (decrypt bf_key iv) (chunk_index * blocks_per_chunk + int j) w)
                 (windows chunk))
   \<and> (length chunk = 5000 \<longrightarrow>
        process_chunk decrypt bf_key blocks_per_chunk chunk 0 =
          decrypt bf_key iv (take 2048 chunk) @ drop 2048 chunk)"
proof
  show "process_chunk decrypt bf_key blocks_per_chunk chunk chunk_index =
     concat (map (\<lambda>(j, w). window_out (decrypt bf_key iv) (chunk_index * blocks_per_chunk + int j) w)
                 (windows chunk))"
    using run_windows_from [of "decrypt bf_key iv" "chunk_index * blocks_per_chunk" 0 chunk]
    by (simp add: process_chunk_def run_def windows_def Let_def)
next
  show "length chunk = 5000 \<longrightarrow>
        process_chunk decrypt bf_key blocks_per_chunk chunk 0 =
          decrypt bf_key iv (take 2048 chunk) @ drop 2048 chunk"
  proof
    assume len: "length chunk = 5000"
    let ?dec = "decrypt bf_key iv"
    let ?c1 = "drop block_size chunk"
    let ?c2 = "drop block_size ?c1"
    have ne0: "chunk \<noteq> []" using len by auto
    have ne1: "?c1 \<noteq> []" using len by (auto simp: block_size_def)
    have ne2: "?c2 \<noteq> []" using len by (auto simp: block_size_def)
    have e3: "drop block_size ?c2 = []" using len by (simp add: block_size_def)
    have w0: "window_out ?dec 0 (take block_size chunk) = ?dec (take block_size chunk)"
      using len by (simp add: window_out_def block_size_def)
    have w1: "window_out ?dec (0 + 1) (take block_size ?c1) = take block_size ?c1"
      by (simp add: window_out_def)
    have w2: "window_out ?dec (0 + 1 + 1) ?c2 = ?c2"
      by (simp add: window_out_def)
    have t2: "take block_size ?c2 = ?c2" using len by (simp add: block_size_def)
    have r2: "run ?dec (0 + 1 + 1) ?c2 = ?c2"
      by (simp only: run_unfold [OF ne2] t2 w2 e3 run_Nil append_Nil2)
    have r1: "run ?dec (0 + 1) ?c1 = ?c1"
      by (simp only: run_unfold [OF ne1] w1 r2 append_take_drop_id)
    have "run ?dec 0 chunk = ?dec (take block_size chunk) @ ?c1"
      by (simp only: run_unfold [OF ne0] w0 r1)
    then show "process_chunk decrypt bf_key blocks_per_chunk chunk 0 =
          decrypt bf_key iv (take 2048 chunk) @ drop 2048 chunk"
      by (simp add: process_chunk_def run_def block_size_def)
  qed
qed

theorem process_chunk_windows_witness:
  "length (replicate 5000 (7::byte)) = 5000 \<and>
   process_chunk (\<lambda>k v b. map (\<lambda>x. x XOR 255) b) [1, 2] 512 (replicate 5000 7) 0 =
     map (\<lambda>x. x XOR 255) (take 2048 (replicate 5000 7)) @ drop 2048 (replicate 5000 7)"
  using process_chunk_windows
    [of "\<lambda>k v b. map (\<lambda>x. x XOR 255) b" "[1, 2]" 512 "replicate 5000 7" 0, THEN conjunct2]
  by simp

text \<open>
  Claim C2. For a chunk size that is a positive multiple of 2048 the processor is
  made, and running it on the whole stream as the single chunk 0 gives the same bytes
  as running it on the consecutive chunks of that size with the indices 0, 1, 2, ...
  and concatenating the outputs.
\<close>

theorem chunk_boundary_independent:
  assumes "0 < chunk_size" and "chunk_size mod 2048 = 0"
  shows "\<exists>proc. create_blowfish_decryptor decrypt bf_key chunk_size = Inr proc \<and>
           proc stream 0 = process_split proc 0 (split_stream (nat chunk_size) stream)"
proof -
  let ?m = "nat (chunk_size div 2048)"
  let ?proc = "process_chunk decrypt bf_key (chunk_size div 2048)"
  have m: "0 < ?m" and cs: "nat chunk_size = ?m * block_size" and im: "int ?m = chunk_size div 2048"
    using assms by (auto simp: block_size_def)
  have proc: "?proc = (\<lambda>c idx. run (decrypt bf_key iv) (idx * int ?m) c)"
    unfolding im by (simp add: process_chunk_def run_def fun_eq_iff)
  have "?proc stream 0 = run (decrypt bf_key iv) (0 * int ?m) stream"
    by (simp add: process_chunk_def run_def)
  also have "\<dots> = process_split ?proc 0 (split_stream (nat chunk_size) stream)"
    unfolding cs by (subst proc) (rule run_split [OF m])
  finally show ?thesis
    using assms by (simp add: create_blowfish_decryptor_def block_size_def)
qed

theorem chunk_boundary_independent_witness:
  "(0::int) < 4096 \<and> (4096::int) mod 2048 = 0 \<and>
   (\<exists>proc. create_blowfish_decryptor (\<lambda>k v b. map (\<lambda>x. x XOR 255) b) [1, 2] 4096 = Inr proc \<and>
      proc (replicate 10000 7) 0 = process_split proc 0 (split_stream (nat 4096) (replicate 10000 7)))"
  using chunk_boundary_independent [of 4096 "\<lambda>k v b. map (\<lambda>x. x XOR 255) b" "[1, 2]" "replicate 10000 7"]
  by simp

text \<open>
  Claim C8. With a cipher that returns 2048 bytes for a block of 2048 bytes (as CBC
  decryption does), the output of the chunk processor has the length of the chunk,
  and for every position \<open>j\<close> the \<open>j\<close>-th window of 2048 bytes of the output is the
  treated \<open>j\<close>-th window of the input.
\<close>

theorem process_chunk_length_and_order:
  assumes "\<forall>w. length w = 2048 \<longrightarrow> length (decrypt bf_key iv w) = 2048"
  shows "length (process_chunk decrypt bf_key blocks_per_chunk chunk chunk_index) = length chunk \<and>
         (\<forall>j. take 2048 (drop (j * 2048)
                  (process_chunk decrypt bf_key blocks_per_chunk chunk chunk_index)) =
               window_out (decrypt bf_key iv) (chunk_index * blocks_per_chunk + int j)
                 (take 2048 (drop (j * 2048) chunk)))"
proof -
  from assms have a: "\<forall>w. length w = block_size \<longrightarrow> length (decrypt bf_key iv w) = block_size"
    by (simp add: block_size_def)
  show ?thesis
    using length_run [OF a] take_run [OF a] drop_run [OF a]
    by (simp add: process_chunk_def run_def block_size_def)
qed

theorem process_chunk_length_and_order_witness:
  "length (process_chunk (\<lambda>k v b. map (\<lambda>x. x XOR 255) b) [1, 2] 512 (replicate 5000 7) 3) =
     length (replicate 5000 (7::byte)) \<and>
   take 2048 (drop (1 * 2048)
      (process_chunk (\<lambda>k v b. map (\<lambda>x. x XOR 255) b) [1, 2] 512 (replicate 5000 7) 3)) =
     window_out (\<lambda>b. map (\<lambda>x. x XOR 255) b) (3 * 512 + int 1)
       (take 2048 (drop (1 * 2048) (replicate 5000 7)))"
proof -
  have h: "\<forall>w. length w = 2048 \<longrightarrow> length ((\<lambda>k v b. map (\<lambda>x. x XOR 255) b) [1, 2] iv w) = 2048"
    by simp
  note t = process_chunk_length_and_order
    [where decrypt = "\<lambda>k v b. map (\<lambda>x. x XOR 255) b" and bf_key = "[1, 2]"
       and blocks_per_chunk = 512 and chunk = "replicate 5000 7" and chunk_index = 3, OF h]
  from t [THEN conjunct1] t [THEN conjunct2, THEN spec, of 1] show ?thesis
    by simp
qed


section \<open>Properties of the key deriver\<close>

lemma length_hexdigest: "length (hexdigest d) = 2 * length d"
  by (induction d) (simp_all add: hexdigest_def)

lemma collect_ok:
  "\<forall>i \<in> set is. f i = Inr (g i) \<Longrightarrow> collect f is = Inr (map g is)"
  by (induction "is") simp_all

text \<open>
  Claim C3. For a digest function that returns 16 bytes (as MD5 does) and a shared
  secret of 16 bytes, the key of every track identifier is computed without an
  exception: the hexadecimal digest has 32 bytes, the key has 16 bytes, and byte \<open>i\<close>
  of the key is \<open>digest[i] XOR digest[i + 16] XOR secret[i]\<close>. The result is a function
  of the identifier (and of the secret), so two calls with the same identifier give
  the same key.
\<close>

theorem get_blowfish_key_bytes:
  assumes "length (md5 track_id) = 16" and "length bf_secret = 16"
  shows "\<exists>key. get_blowfish_key md5 bf_secret track_id = Inr key \<and> length key = 16 \<and>
           length (hexdigest (md5 track_id)) = 32 \<and>
           (\<forall>i < 16. key ! i =
              hexdigest (md5 track_id) ! i XOR hexdigest (md5 track_id) ! (i + 16) XOR bf_secret ! i)"
proof -
  let ?h = "hexdigest (md5 track_id)"
  let ?g = "\<lambda>i. ?h ! i XOR ?h ! (i + 16) XOR bf_secret ! i"
  have len: "length ?h = 32" using assms(1) by (simp add: length_hexdigest)
  have "\<forall>i \<in> set [0..<16]. key_byte ?h bf_secret i = Inr (?g i)"
    using len assms(2) by (simp add: key_byte_def byte_at_def)
  then have "collect (key_byte ?h bf_secret) [0..<16] = Inr (map ?g [0..<16])"
    by (rule collect_ok)
  then have "get_blowfish_key md5 bf_secret track_id = Inr (map ?g [0..<16])"
    by (simp add: get_blowfish_key_def)
  moreover have "length (map ?g [0..<16]) = 16" by simp
  moreover have "\<forall>i < 16. map ?g [0..<16] ! i = ?g i"
    by (simp del: upt_Suc)
  ultimately show ?thesis using len by blast
qed

theorem get_blowfish_key_bytes_witness:
  "length ((\<lambda>t. replicate 16 (of_nat (length t))) ''3135556'' :: bytes) = 16 \<and>
   length (replicate 16 (103 :: byte)) = 16 \<and>
   (\<exists>key. get_blowfish_key (\<lambda>t. replicate 16 (of_nat (length t))) (replicate 16 103) ''3135556''
             = Inr key \<and> length key = 16)"
  using get_blowfish_key_bytes
    [of "\<lambda>t. replicate 16 (of_nat (length t))" "''3135556''" "replicate 16 103"]
  by auto

section \<open>Properties of the gateway call\<close>

lemma subscript_error: "subscript v k = Inl e \<Longrightarrow> lookup_error e"
  by (cases v) (auto split: option.splits)

lemma index_error: "index v n = Inl e \<Longrightarrow> lookup_error e"
  by (cases v) (auto split: if_splits)

lemma py_get_error: "py_get v k = Inl e \<Longrightarrow> lookup_error e"
  by (cases v) auto

lemma first_item_error: "first_item v = Inl e \<Longrightarrow> lookup_error e"
  by (cases v rule: first_item.cases) auto

lemma lookup_path_error: "lookup v ps = Inl e \<Longrightarrow> lookup_error e"
proof (induction v ps rule: lookup.induct)
  case (1 v)
  then show ?case by simp
next
  case (2 v k ps)
  then show ?case by (auto split: sum.splits dest: subscript_error)
next
  case (3 v n ps)
  then show ?case by (auto split: sum.splits dest: index_error)
qed

lemmas lookup_errors =
  subscript_error index_error py_get_error first_item_error lookup_path_error

lemma update_session_frame:
  "update_session w s data = (r, s') \<Longrightarrow>
     requests s' = requests s \<and> arl s' = arl s \<and> cookie_jar s' = cookie_jar s"
  by (auto simp: update_session_def Let_def py_time_def split: sum.splits prod.splits if_splits)

lemma update_session_error:
  "update_session w s data = (Inl e, s') \<Longrightarrow> lookup_error e"
  by (auto simp: update_session_def Let_def py_time_def
           split: sum.splits prod.splits if_splits dest: lookup_errors)

text \<open>What a successful update has written.\<close>

lemma update_session_written:
  assumes "update_session w s data = (Inr u, s')"
  shows "\<exists>results opts hq lossless.
           subscript data ''results'' = Inr results \<and>
           subscript results ''checkForm'' = Inr (api_token s') \<and>
           subscript results ''COUNTRY'' = Inr (country s') \<and>
           lookup results [Key ''USER'', Key ''OPTIONS'', Key ''license_token''] = Inr (license_token s') \<and>
           lookup results [Key ''USER'', Key ''SETTING'', Key ''global'', Key ''language''] = Inr (language s') \<and>
           renew_timestamp s' = \<lceil>clock w (clock_reads s)\<rceil> \<and>
           clock_reads s' = Suc (clock_reads s) \<and>
           lookup results [Key ''USER'', Key ''OPTIONS''] = Inr opts \<and>
           py_get opts ''web_hq'' = Inr hq \<and>
           py_get opts ''web_lossless'' = Inr lossless \<and>
           available_formats s' =
             [''MP3_128''] @ (if truthy hq then [''MP3_320''] else []) @
             (if truthy lossless then [''FLAC''] else [])"
  using assms
  by (simp add: update_session_def Let_def py_time_def del: lookup.simps
           split: sum.splits prod.splits) force


lemma handle_reply_frame:
  "handle_reply w s method data = (r, s') \<Longrightarrow>
     requests s' = requests s \<and> arl s' = arl s \<and> cookie_jar s' = cookie_jar s"
  by (auto simp: handle_reply_def split: sum.splits prod.splits if_splits
           dest: update_session_frame)

lemma handle_reply_other:
  "method \<noteq> ''deezer.getUserData'' \<Longrightarrow> handle_reply w s method data = (r, s') \<Longrightarrow> s' = s"
  by (auto simp: handle_reply_def split: sum.splits prod.splits if_splits)

lemma handle_reply_error:
  "handle_reply w s method data = (Inl e, s') \<Longrightarrow>
     lookup_error e \<or> (\<exists>t v. e = ModuleAPIError method t v)"
  by (auto simp: handle_reply_def split: sum.splits prod.splits if_splits
           dest: lookup_errors update_session_error)

lemma handle_reply_bootstrap:
  "handle_reply w s ''deezer.getUserData'' data = (Inr ud, s') \<Longrightarrow>
     subscript data ''results'' = Inr ud \<and> update_session w s data = (Inr (), s')"
  by (auto simp: handle_reply_def split: sum.splits prod.splits if_splits)


lemma gw_request_unfold:
  "gw_request w s method payload =
     (case respond w (requests s @ [sent_request s method payload]) of
        NetFail \<Rightarrow> (Inl TransportError, s\<lparr>requests := requests s @ [sent_request s method payload]\<rparr>)
      | Body data \<Rightarrow>
          handle_reply w (s\<lparr>requests := requests s @ [sent_request s method payload]\<rparr>) method data)"
  unfolding gw_request_def post_def Let_def sent_request_def by simp

lemma gw_request_frame:
  "gw_request w s method payload = (r, s') \<Longrightarrow>
     requests s' = requests s @ [sent_request s method payload] \<and>
     arl s' = arl s \<and> cookie_jar s' = cookie_jar s"
  by (auto simp: gw_request_unfold split: reply.splits dest: handle_reply_frame)

lemma gw_request_other:
  "method \<noteq> ''deezer.getUserData'' \<Longrightarrow> gw_request w s method payload = (r, s') \<Longrightarrow>
     s' = s\<lparr>requests := requests s @ [sent_request s method payload]\<rparr>"
  by (auto simp: gw_request_unfold split: reply.splits dest: handle_reply_other)

lemma gw_request_error:
  "gw_request w s method payload = (Inl e, s') \<Longrightarrow>
     e = TransportError \<or> lookup_error e \<or> (\<exists>t v. e = ModuleAPIError method t v)"
  by (auto simp: gw_request_unfold split: reply.splits dest: handle_reply_error)

lemma gw_api_call_direct:
  "truthy (api_token s) \<or> arl s = [] \<or> method \<in> set auth_methods \<Longrightarrow>
   gw_api_call w s method payload0 =
     gw_request w s method (case payload0 of None \<Rightarrow> JObj [] | Some p \<Rightarrow> p)"
  by (subst gw_api_call.simps) (auto simp: Let_def)

lemma gw_api_call_relogin:
  "\<not> truthy (api_token s) \<Longrightarrow> arl s \<noteq> [] \<Longrightarrow> method \<notin> set auth_methods \<Longrightarrow>
   gw_api_call w s method payload0 =
     (case gw_request w s ''deezer.getUserData'' (JObj []) of
        (Inl e, s1) \<Rightarrow> (Inl e, s1)
      | (Inr u, s1) \<Rightarrow>
          gw_request w s1 method (case payload0 of None \<Rightarrow> JObj [] | Some p \<Rightarrow> p))"
  by (subst gw_api_call.simps)
     (simp add: Let_def gw_api_call_direct [of _ "''deezer.getUserData''"] auth_methods_def)

lemma gw_api_call_frame:
  assumes "gw_api_call w s method payload0 = (r, s')"
  shows "arl s' = arl s \<and> cookie_jar s' = cookie_jar s"
proof (cases "truthy (api_token s) \<or> arl s = [] \<or> method \<in> set auth_methods")
  case True
  then show ?thesis
    using assms gw_api_call_direct [OF True] by (auto dest: gw_request_frame)
next
  case False
  obtain r1 s1 where first: "gw_request w s ''deezer.getUserData'' (JObj []) = (r1, s1)"
    by (cases "gw_request w s ''deezer.getUserData'' (JObj [])")
  note f1 = gw_request_frame [OF first]
  show ?thesis
  proof (cases r1)
    case (Inl e)
    then show ?thesis using assms False first f1 by (simp add: gw_api_call_relogin)
  next
    case (Inr u)
    then have "gw_request w s1 method (case payload0 of None \<Rightarrow> JObj [] | Some p \<Rightarrow> p) = (r, s')"
      using assms False first by (simp add: gw_api_call_relogin)
    from gw_request_frame [OF this] f1 show ?thesis by simp
  qed
qed

lemma gw_api_call_error:
  "gw_api_call w s method payload0 = (Inl e, s') \<Longrightarrow>
     e = TransportError \<or> lookup_error e \<or> (\<exists>m t v. e = ModuleAPIError m t v)"
proof (cases "truthy (api_token s) \<or> arl s = [] \<or> method \<in> set auth_methods")
  case True
  assume "gw_api_call w s method payload0 = (Inl e, s')"
  then show ?thesis
    using gw_api_call_direct [OF True] by (auto dest: gw_request_error)
next
  case False
  assume "gw_api_call w s method payload0 = (Inl e, s')"
  then show ?thesis
    using False
    by (auto simp: gw_api_call_relogin split: prod.splits sum.splits dest: gw_request_error)
qed

text \<open>
  Claim C10. A gateway call of a method other than \<^verbatim>\<open>deezer.getUserData\<close>, made with
  a non-empty token, leaves the token, the country, the license token, the language,
  the issue time and the available formats as they were, whatever the outcome of the
  call (a result or an exception).
\<close>

theorem gw_api_call_session_frame:
  assumes "method \<noteq> ''deezer.getUserData''" and "truthy (api_token s)"
  shows "api_token (snd (gw_api_call w s method payload0)) = api_token s \<and>
         country (snd (gw_api_call w s method payload0)) = country s \<and>
         license_token (snd (gw_api_call w s method payload0)) = license_token s \<and>
         language (snd (gw_api_call w s method payload0)) = language s \<and>
         renew_timestamp (snd (gw_api_call w s method payload0)) = renew_timestamp s \<and>
         available_formats (snd (gw_api_call w s method payload0)) = available_formats s"
proof -
  let ?p = "case payload0 of None \<Rightarrow> JObj [] | Some p \<Rightarrow> p"
  obtain r s' where res: "gw_request w s method ?p = (r, s')"
    by (cases "gw_request w s method ?p")
  have "gw_api_call w s method payload0 = (r, s')"
    using assms(2) res by (simp add: gw_api_call_direct)
  moreover have "s' = s\<lparr>requests := requests s @ [sent_request s method ?p]\<rparr>"
    using assms(1) res by (rule gw_request_other)
  ultimately show ?thesis by simp
qed

lemmas eval_defs =
  gw_request_unfold sent_request_def handle_reply_def update_session_def py_time_def
  auth_methods_def init_client_def bootstrap_reply_def sample_service_def Let_def

theorem gw_api_call_session_frame_witness:
  "''song.getData'' \<noteq> ''deezer.getUserData'' \<and>
   truthy (api_token (init_client\<lparr>api_token := JStr ''T1''\<rparr>)) \<and>
   api_token (snd (gw_api_call (sample_service JNull JNull 5000)
                    (init_client\<lparr>api_token := JStr ''T1''\<rparr>) ''song.getData'' None)) = JStr ''T1''"
  using gw_api_call_session_frame
    [of "''song.getData''" "init_client\<lparr>api_token := JStr ''T1''\<rparr>"
        "sample_service JNull JNull 5000" None]
  by (simp add: init_client_def)

text \<open>
  The claim as stated says that a bootstrap which leaves the token empty makes the
  call fail with an authentication error: here it does leave it empty, and the call
  returns its result.
\<close>

theorem relogin_empty_token_no_auth_error:
  "\<not> truthy (api_token (init_client\<lparr>arl := ''arl0''\<rparr>)) \<and>
   arl (init_client\<lparr>arl := ''arl0''\<rparr>) \<noteq> [] \<and>
   fst (gw_api_call
          (sample_service (bootstrap_reply (JStr []) (JInt 7) (JBool False) (JBool False)) JNull 5000)
          (init_client\<lparr>arl := ''arl0''\<rparr>) ''song.getData'' None)
     = Inr (JObj [(''TRACK_TOKEN'', JStr ''T2'')]) \<and>
   api_token (snd (gw_api_call
          (sample_service (bootstrap_reply (JStr []) (JInt 7) (JBool False) (JBool False)) JNull 5000)
          (init_client\<lparr>arl := ''arl0''\<rparr>) ''song.getData'' None))
     = JStr []"
  by (simp add: gw_api_call_relogin eval_defs)


text \<open>
  Claim C6, as amended. A gateway call of a method that is not an authentication
  method, started with an empty token and a stored credential, first performs exactly
  one request of \<^verbatim>\<open>deezer.getUserData\<close> (with an empty token). If that call raises,
  its exception is the outcome and nothing more is sent. Otherwise the request of the
  method is sent once, with whatever token the bootstrap stored, even an empty one:
  the call goes no deeper and does not retry, and it never raises \<open>ModuleAuthError\<close>.
\<close>

theorem relogin_single_bootstrap:
  assumes "\<not> truthy (api_token s)" and "arl s \<noteq> []" and "method \<notin> set auth_methods"
  shows "\<exists>r1 s1.
           gw_api_call w s ''deezer.getUserData'' None = (r1, s1) \<and>
           requests s1 = requests s @ [GwPost ''deezer.getUserData'' (JStr []) (JObj [])] \<and>
           (case r1 of
              Inl e \<Rightarrow> gw_api_call w s method payload0 = (Inl e, s1)
            | Inr u \<Rightarrow>
                requests (snd (gw_api_call w s method payload0)) =
                  requests s1 @ [GwPost method (api_token s1)
                                   (case payload0 of None \<Rightarrow> JObj [] | Some p \<Rightarrow> p)]) \<and>
           fst (gw_api_call w s method payload0) \<noteq> Inl ModuleAuthError"
proof -
  let ?p = "case payload0 of None \<Rightarrow> JObj [] | Some p \<Rightarrow> p"
  obtain r1 s1 where first: "gw_request w s ''deezer.getUserData'' (JObj []) = (r1, s1)"
    by (cases "gw_request w s ''deezer.getUserData'' (JObj [])")
  have inner: "gw_api_call w s ''deezer.getUserData'' None = (r1, s1)"
    using first by (simp add: gw_api_call_direct auth_methods_def)
  have reqs1: "requests s1 = requests s @ [GwPost ''deezer.getUserData'' (JStr []) (JObj [])]"
    using gw_request_frame [OF first] by (simp add: sent_request_def auth_methods_def)
  have outer: "gw_api_call w s method payload0 =
      (case r1 of Inl e \<Rightarrow> (Inl e, s1) | Inr u \<Rightarrow> gw_request w s1 method ?p)"
    using assms first by (simp add: gw_api_call_relogin split: sum.splits)
  have no_auth: "fst (gw_api_call w s method payload0) \<noteq> Inl ModuleAuthError"
  proof
    assume a: "fst (gw_api_call w s method payload0) = Inl ModuleAuthError"
    obtain s' where "gw_api_call w s method payload0 = (Inl ModuleAuthError, s')"
      using a by (cases "gw_api_call w s method payload0") simp
    from gw_api_call_error [OF this] show False by simp
  qed
  have "case r1 of
          Inl e \<Rightarrow> gw_api_call w s method payload0 = (Inl e, s1)
        | Inr u \<Rightarrow>
            requests (snd (gw_api_call w s method payload0)) =
              requests s1 @ [GwPost method (api_token s1) ?p]"
  proof (cases r1)
    case (Inl e)
    then show ?thesis using outer by simp
  next
    case (Inr u)
    obtain r2 s2 where second: "gw_request w s1 method ?p = (r2, s2)"
      by (cases "gw_request w s1 method ?p")
    from gw_request_frame [OF second] assms(3)
    have "requests s2 = requests s1 @ [GwPost method (api_token s1) ?p]"
      by (simp add: sent_request_def)
    then show ?thesis using Inr outer second by simp
  qed
  with inner reqs1 no_auth show ?thesis by blast
qed

theorem relogin_single_bootstrap_witness:
  "\<not> truthy (api_token (init_client\<lparr>arl := ''arl0''\<rparr>)) \<and>
   arl (init_client\<lparr>arl := ''arl0''\<rparr>) \<noteq> [] \<and>
   ''song.getData'' \<notin> set auth_methods \<and>
   fst (gw_api_call (sample_service (bootstrap_reply (JStr ''T1'') (JInt 7) (JBool False) (JBool False)) JNull 5000)
          (init_client\<lparr>arl := ''arl0''\<rparr>) ''song.getData'' None) \<noteq> Inl ModuleAuthError"
  using relogin_single_bootstrap
    [of "init_client\<lparr>arl := ''arl0''\<rparr>" "''song.getData''"
        "sample_service (bootstrap_reply (JStr ''T1'') (JInt 7) (JBool False) (JBool False)) JNull 5000"
        None]
  by (auto simp: init_client_def auth_methods_def)

text \<open>What a successful call of \<^verbatim>\<open>deezer.getUserData\<close> has written.\<close>

lemma bootstrap_written:
  assumes "gw_api_call w s ''deezer.getUserData'' None = (Inr ud, s')"
  shows "\<exists>opts hq lossless.
           subscript ud ''checkForm'' = Inr (api_token s') \<and>
           subscript ud ''COUNTRY'' = Inr (country s') \<and>
           lookup ud [Key ''USER'', Key ''OPTIONS'', Key ''license_token''] = Inr (license_token s') \<and>
           lookup ud [Key ''USER'', Key ''SETTING'', Key ''global'', Key ''language''] = Inr (language s') \<and>
           lookup ud [Key ''USER'', Key ''OPTIONS''] = Inr opts \<and>
           py_get opts ''web_hq'' = Inr hq \<and>
           py_get opts ''web_lossless'' = Inr lossless \<and>
           available_formats s' =
             [''MP3_128''] @ (if truthy hq then [''MP3_320''] else []) @
             (if truthy lossless then [''FLAC''] else [])"
proof -
  let ?s1 = "s\<lparr>requests := requests s @ [sent_request s ''deezer.getUserData'' (JObj [])]\<rparr>"
  from assms have req: "gw_request w s ''deezer.getUserData'' (JObj []) = (Inr ud, s')"
    by (simp add: gw_api_call_direct auth_methods_def)
  then obtain data where hr: "handle_reply w ?s1 ''deezer.getUserData'' data = (Inr ud, s')"
    by (auto simp: gw_request_unfold split: reply.splits)
  from handle_reply_bootstrap [OF hr]
  have res: "subscript data ''results'' = Inr ud" and upd: "update_session w ?s1 data = (Inr (), s')"
    by simp_all
  from update_session_written [OF upd] res show ?thesis
    by (auto simp del: lookup.simps)
qed

lemma bootstrap_session_from:
  assumes "gw_api_call w s ''deezer.getUserData'' None = (Inr ud, s')"
  shows "session_from ud s'"
  using bootstrap_written [OF assms]
  by (auto simp: session_from.simps simp del: lookup.simps)

lemma session_from_credential:
  "session_from ud s \<Longrightarrow> session_from ud (s\<lparr>cookie_jar := c, arl := a\<rparr>)"
  by (auto simp: session_from.simps simp del: lookup.simps split: sum.splits)

text \<open>
  Claim C9, as amended. \<^verbatim>\<open>login_via_arl\<close> raises \<open>ModuleAuthError\<close> exactly when the
  bootstrap call returns user data whose \<^verbatim>\<open>USER.USER_ID\<close> is present and falsy. Then the
  stored credential is emptied and the cookie jar cleared, while the session fields
  keep what the bootstrap call wrote from that response. On success the credential and
  its cookie are stored and token, country, license token, language and formats are
  those of the returned user data.
\<close>

theorem login_via_arl_outcome:
  assumes "login_via_arl w s a = (r, s')"
  shows "((r = Inl ModuleAuthError) =
            (\<exists>ud s3 user_id.
               gw_api_call w (s\<lparr>arl := a, cookie_jar := (cookie_jar s)(''arl'' \<mapsto> a)\<rparr>)
                 ''deezer.getUserData'' None = (Inr ud, s3) \<and>
               lookup ud [Key ''USER'', Key ''USER_ID''] = Inr user_id \<and> \<not> truthy user_id)) \<and>
         (r = Inl ModuleAuthError \<longrightarrow>
            arl s' = [] \<and> cookie_jar s' = Map.empty \<and>
            (\<exists>ud s3.
               gw_api_call w (s\<lparr>arl := a, cookie_jar := (cookie_jar s)(''arl'' \<mapsto> a)\<rparr>)
                 ''deezer.getUserData'' None = (Inr ud, s3) \<and>
               s' = s3\<lparr>cookie_jar := Map.empty, arl := []\<rparr> \<and> session_from ud s')) \<and>
         (\<forall>ud. r = Inr ud \<longrightarrow>
            arl s' = a \<and> cookie_jar s' = (cookie_jar s)(''arl'' \<mapsto> a) \<and> session_from ud s' \<and>
            (\<exists>user_id. lookup ud [Key ''USER'', Key ''USER_ID''] = Inr user_id \<and> truthy user_id))"
proof -
  let ?s2 = "s\<lparr>arl := a, cookie_jar := (cookie_jar s)(''arl'' \<mapsto> a)\<rparr>"
  obtain r3 s3 where inner: "gw_api_call w ?s2 ''deezer.getUserData'' None = (r3, s3)"
    by (cases "gw_api_call w ?s2 ''deezer.getUserData'' None")
  note frame = gw_api_call_frame [OF inner]
  show ?thesis
  proof (cases r3)
    case (Inl e)
    with inner assms have r: "r = Inl e" "s' = s3"
      by (simp_all add: login_via_arl_def Let_def)
    from gw_api_call_error [of w ?s2 "''deezer.getUserData''" None e s3] inner Inl
    have "e \<noteq> ModuleAuthError" by auto
    then show ?thesis using r inner Inl by simp
  next
    case (Inr ud)
    note sf = bootstrap_session_from [OF inner [unfolded Inr]]
    show ?thesis
    proof (cases "lookup ud [Key ''USER'', Key ''USER_ID'']")
      case e: (Inl e)
      with inner Inr assms have r: "r = Inl e" "s' = s3"
        by (simp_all add: login_via_arl_def Let_def del: lookup.simps)
      from lookup_path_error [OF e] have "e \<noteq> ModuleAuthError" by auto
      then show ?thesis using r inner Inr e by (simp del: lookup.simps)
    next
      case u: (Inr user_id)
      show ?thesis
      proof (cases "truthy user_id")
        case True
        with inner Inr u assms have r: "r = Inr ud" "s' = s3"
          by (simp_all add: login_via_arl_def Let_def del: lookup.simps)
        then show ?thesis using inner Inr u True frame sf by (simp del: lookup.simps)
      next
        case False
        with inner Inr u assms
        have r: "r = Inl ModuleAuthError" "s' = s3\<lparr>cookie_jar := Map.empty, arl := []\<rparr>"
          by (simp_all add: login_via_arl_def Let_def del: lookup.simps)
        then show ?thesis
          using inner Inr u False session_from_credential [OF sf]
          by (simp del: lookup.simps)
      qed
    qed
  qed
qed

theorem login_via_arl_outcome_witness:
  "session_from
     (JObj [(''checkForm'', JStr ''T1''), (''COUNTRY'', JStr ''US''),
        (''USER'', JObj
          [(''USER_ID'', JInt 7),
           (''OPTIONS'', JObj [(''license_token'', JStr ''L1''),
                               (''web_hq'', JBool True), (''web_lossless'', JBool False)]),
           (''SETTING'', JObj [(''global'', JObj [(''language'', JStr ''en'')])])])])
     (snd (login_via_arl
        (sample_service (bootstrap_reply (JStr ''T1'') (JInt 7) (JBool True) (JBool False)) JNull 5000)
        init_client ''arl0''))"
proof -
  let ?w = "sample_service (bootstrap_reply (JStr ''T1'') (JInt 7) (JBool True) (JBool False)) JNull 5000"
  have run: "login_via_arl ?w init_client ''arl0'' =
               (fst (login_via_arl ?w init_client ''arl0''), snd (login_via_arl ?w init_client ''arl0''))"
    by simp
  have ok: "fst (login_via_arl ?w init_client ''arl0'') =
     Inr (JObj [(''checkForm'', JStr ''T1''), (''COUNTRY'', JStr ''US''),
        (''USER'', JObj
          [(''USER_ID'', JInt 7),
           (''OPTIONS'', JObj [(''license_token'', JStr ''L1''),
                               (''web_hq'', JBool True), (''web_lossless'', JBool False)]),
           (''SETTING'', JObj [(''global'', JObj [(''language'', JStr ''en'')])])])])"
    by (simp add: login_via_arl_def gw_api_call_direct eval_defs)
  from login_via_arl_outcome [OF run] ok show ?thesis by blast
qed

text \<open>
  The claim as stated says that a failed login leaves no half-applied state: here the
  login fails for want of a user identifier, and token, license token and issue time
  of the session are no longer the initial ones.
\<close>

theorem login_failure_keeps_session_fields:
  "fst (login_via_arl
          (sample_service (bootstrap_reply (JStr ''T0'') (JInt 0) (JBool False) (JBool False)) JNull 5000)
          init_client ''bad'') = Inl ModuleAuthError \<and>
   api_token init_client = JStr [] \<and> license_token init_client = JStr [] \<and>
   renew_timestamp init_client = 0 \<and>
   api_token (snd (login_via_arl
          (sample_service (bootstrap_reply (JStr ''T0'') (JInt 0) (JBool False) (JBool False)) JNull 5000)
          init_client ''bad'')) = JStr ''T0'' \<and>
   license_token (snd (login_via_arl
          (sample_service (bootstrap_reply (JStr ''T0'') (JInt 0) (JBool False) (JBool False)) JNull 5000)
          init_client ''bad'')) = JStr ''L1'' \<and>
   renew_timestamp (snd (login_via_arl
          (sample_service (bootstrap_reply (JStr ''T0'') (JInt 0) (JBool False) (JBool False)) JNull 5000)
          init_client ''bad'')) = 5000"
  by (simp add: login_via_arl_def gw_api_call_direct eval_defs)

section \<open>Properties of the stream URL resolution\<close>



lemma sent_request_not_media: "\<not> is_media (sent_request s method payload)"
  by (simp add: sent_request_def)

lemma gw_api_call_requests:
  assumes "gw_api_call w s method payload0 = (r, s')"
  shows "\<exists>gs. requests s' = requests s @ gs \<and> gs \<noteq> [] \<and> filter is_media gs = [] \<and>
              \<not> is_media (last gs)"
proof (cases "truthy (api_token s) \<or> arl s = [] \<or> method \<in> set auth_methods")
  case True
  with assms have "gw_request w s method (case payload0 of None \<Rightarrow> JObj [] | Some p \<Rightarrow> p) = (r, s')"
    by (simp add: gw_api_call_direct)
  from gw_request_frame [OF this] show ?thesis
    by (simp add: sent_request_not_media)
next
  case False
  obtain r1 s1 where first: "gw_request w s ''deezer.getUserData'' (JObj []) = (r1, s1)"
    by (cases "gw_request w s ''deezer.getUserData'' (JObj [])")
  note f1 = gw_request_frame [OF first]
  show ?thesis
  proof (cases r1)
    case (Inl e)
    then have "s' = s1" using assms False first by (simp add: gw_api_call_relogin)
    with f1 show ?thesis by (simp add: sent_request_not_media)
  next
    case (Inr u)
    then have "gw_request w s1 method (case payload0 of None \<Rightarrow> JObj [] | Some p \<Rightarrow> p) = (r, s')"
      using assms False first by (simp add: gw_api_call_relogin)
    from gw_request_frame [OF this] f1 show ?thesis
      by (simp add: sent_request_not_media)
  qed
qed


lemma renew_license_unfold:
  "renew_license w s =
     (if 3600 \<le> clock w (clock_reads s) - real_of_int (renew_timestamp s)
      then (case gw_request w (s\<lparr>clock_reads := Suc (clock_reads s)\<rparr>) ''deezer.getUserData'' (JObj []) of
              (Inl e, s2) \<Rightarrow> (Inl e, s2)
            | (Inr u, s2) \<Rightarrow> (Inr (), s2))
      else (Inr (), s\<lparr>clock_reads := Suc (clock_reads s)\<rparr>))"
  by (simp add: renew_license_def py_time_def gw_api_call_direct auth_methods_def)

lemma renew_license_requests:
  "requests (snd (renew_license w s)) =
     requests s @ (if 3600 \<le> clock w (clock_reads s) - real_of_int (renew_timestamp s)
                   then [bootstrap_request] else [])"
proof (cases "3600 \<le> clock w (clock_reads s) - real_of_int (renew_timestamp s)")
  case True
  let ?s1 = "s\<lparr>clock_reads := Suc (clock_reads s)\<rparr>"
  obtain r2 s2 where req: "gw_request w ?s1 ''deezer.getUserData'' (JObj []) = (r2, s2)"
    by (cases "gw_request w ?s1 ''deezer.getUserData'' (JObj [])")
  from gw_request_frame [OF req] have "requests s2 = requests s @ [bootstrap_request]"
    by (simp add: sent_request_def auth_methods_def bootstrap_request_def)
  then show ?thesis using True req
    by (simp add: renew_license_unfold split: sum.splits)
next
  case False
  then show ?thesis by (simp add: renew_license_unfold)
qed

lemma renew_license_fail:
  "renew_license w s = (Inl e, s1) \<Longrightarrow>
     requests s1 = requests s @ [bootstrap_request]"
  using renew_license_requests [of w s]
  by (auto simp: renew_license_unfold split: if_splits)

lemma renew_track_token_fresh:
  "clock w (clock_reads s) < expiry \<Longrightarrow>
   renew_track_token w s tid tok expiry = (Inr tok, s\<lparr>clock_reads := Suc (clock_reads s)\<rparr>)"
  by (simp add: renew_track_token_def py_time_def)


lemma renew_track_token_requests:
  assumes "renew_track_token w s tid tok expiry = (r, s2)"
  shows "\<exists>gs. requests s2 = requests s @ gs \<and> filter is_media gs = [] \<and>
              (\<forall>e. r = Inl e \<longrightarrow> gs \<noteq> [] \<and> \<not> is_media (last gs))"
proof (cases "expiry \<le> clock w (clock_reads s)")
  case True
  let ?s1 = "s\<lparr>clock_reads := Suc (clock_reads s)\<rparr>"
  obtain r1 s1 where
    call: "gw_api_call w ?s1 ''song.getData'' (Some (track_token_payload tid)) = (r1, s1)"
    by (cases "gw_api_call w ?s1 ''song.getData'' (Some (track_token_payload tid))")
  from assms True call have "s2 = s1"
    by (auto simp: renew_track_token_def py_time_def split: sum.splits)
  with gw_api_call_requests [OF call] show ?thesis by auto
next
  case False
  with assms have "r = Inr tok" "requests s2 = requests s @ []"
    by (auto simp: renew_track_token_fresh)
  then show ?thesis by (intro exI [of _ "[]"]) simp
qed

lemma request_media_unfold:
  "request_media w s t fmt =
     (case respond w (requests s @ [MediaPost (media_payload (license_token s) fmt t)]) of
        NetFail \<Rightarrow> Inl TransportError
      | Body data \<Rightarrow> media_url data,
      s\<lparr>requests := requests s @ [MediaPost (media_payload (license_token s) fmt t)]\<rparr>)"
  by (simp add: request_media_def post_def Let_def split: reply.splits)


lemma get_track_url_cases:
  assumes "get_track_url w s tid tok expiry fmt = (r, s')"
  shows "(\<exists>gs. requests s' = requests s @ gs \<and> gs \<noteq> [] \<and> filter is_media gs = [] \<and>
               \<not> is_media (last gs) \<and> (\<exists>e. r = Inl e)) \<or>
         ((\<exists>gs p. requests s' = requests s @ gs @ [MediaPost p] \<and> filter is_media gs = []) \<and>
          r = (case respond w (requests s') of
                 NetFail \<Rightarrow> Inl TransportError | Body data \<Rightarrow> media_url data))"
proof -
  obtain r1 s1 where one: "renew_license w s = (r1, s1)"
    by (cases "renew_license w s")
  have reqs1: "requests s1 =
      requests s @ (if 3600 \<le> clock w (clock_reads s) - real_of_int (renew_timestamp s)
                    then [bootstrap_request] else [])"
    using renew_license_requests [of w s] one by simp
  show ?thesis
  proof (cases r1)
    case (Inl e)
    with one assms have "r = Inl e" "s' = s1" by (simp_all add: get_track_url_def)
    with renew_license_fail [OF one [unfolded Inl]] show ?thesis
      by (simp add: bootstrap_request_def)
  next
    case (Inr u)
    obtain r2 s2 where two: "renew_track_token w s1 tid tok expiry = (r2, s2)"
      by (cases "renew_track_token w s1 tid tok expiry")
    from renew_track_token_requests [OF two] obtain gs2 where
      gs2: "requests s2 = requests s1 @ gs2" "filter is_media gs2 = []"
           "\<forall>e. r2 = Inl e \<longrightarrow> gs2 \<noteq> [] \<and> \<not> is_media (last gs2)"
      by blast
    let ?gs1 = "if 3600 \<le> clock w (clock_reads s) - real_of_int (renew_timestamp s)
                then [bootstrap_request] else []"
    have f1: "filter is_media ?gs1 = []" by (simp add: bootstrap_request_def)
    show ?thesis
    proof (cases r2)
      case e: (Inl e)
      with one Inr two assms have "r = Inl e" "s' = s2" by (simp_all add: get_track_url_def)
      moreover have "requests s2 = requests s @ (?gs1 @ gs2)" using reqs1 gs2(1) by simp
      moreover have "?gs1 @ gs2 \<noteq> []" "filter is_media (?gs1 @ gs2) = []"
        "\<not> is_media (last (?gs1 @ gs2))"
        using gs2 e f1 by simp_all
      ultimately show ?thesis by blast
    next
      case t: (Inr t)
      with one Inr two assms have run: "request_media w s2 t fmt = (r, s')"
        by (simp add: get_track_url_def)
      let ?m = "MediaPost (media_payload (license_token s2) fmt t)"
      from run have s': "requests s' = requests s2 @ [?m]"
        and r: "r = (case respond w (requests s2 @ [?m]) of
                       NetFail \<Rightarrow> Inl TransportError | Body data \<Rightarrow> media_url data)"
        by (auto simp: request_media_unfold)
      have a: "requests s' = requests s @ (?gs1 @ gs2) @ [?m]" using s' reqs1 gs2(1) by simp
      have b: "filter is_media (?gs1 @ gs2) = []" using f1 gs2(2) by simp
      have c: "r = (case respond w (requests s') of
                       NetFail \<Rightarrow> Inl TransportError | Body data \<Rightarrow> media_url data)"
        using r s' by simp
      have "\<exists>gs p. requests s' = requests s @ gs @ [MediaPost p] \<and> filter is_media gs = []"
        using a b by blast
      then show ?thesis using c by (intro disjI2 conjI)
    qed
  qed
qed

lemma media_url_error: "media_url data = Inl e \<Longrightarrow> lookup_error e"
  unfolding media_url_def by (rule lookup_path_error)

text \<open>
  Claim C5, as amended. When \<^verbatim>\<open>get_track_url\<close> has sent its media request and the
  response has a body, the outcome is exactly the value at
  \<^verbatim>\<open>data["data"][0]["media"][0]["sources"][0]["url"]\<close>, returned as it is, or the
  exception of the first subscript that fails: \<open>IndexError\<close> for an empty \<^verbatim>\<open>data\<close>
  list, \<open>KeyError\<close> for a missing \<^verbatim>\<open>data\<close> key. It is never \<open>ModuleAPIError\<close>, and
  exactly one media request is sent, so nothing is retried.
\<close>

theorem get_track_url_media_response:
  assumes "get_track_url w s tid tok expiry fmt = (r, s')"
      and "requests s' = pre @ [MediaPost p]"
      and "respond w (requests s') = Body data"
  shows "r = media_url data \<and>
         (subscript data ''data'' = Inr (JArr []) \<longrightarrow> r = Inl IndexError) \<and>
         (subscript data ''data'' = Inl (KeyError (JStr ''data'')) \<longrightarrow>
            r = Inl (KeyError (JStr ''data''))) \<and>
         (\<forall>e. r = Inl e \<longrightarrow> lookup_error e) \<and>
         (\<forall>m t v. r \<noteq> Inl (ModuleAPIError m t v)) \<and>
         length (filter is_media (requests s')) = Suc (length (filter is_media (requests s)))"
proof -
  have sent: "is_media (last (requests s'))" using assms(2) by simp
  have "(\<exists>gs p. requests s' = requests s @ gs @ [MediaPost p] \<and> filter is_media gs = []) \<and>
        r = (case respond w (requests s') of
               NetFail \<Rightarrow> Inl TransportError | Body data \<Rightarrow> media_url data)"
    using get_track_url_cases [OF assms(1)]
  proof (elim disjE)
    assume "\<exists>gs. requests s' = requests s @ gs \<and> gs \<noteq> [] \<and> filter is_media gs = [] \<and>
               \<not> is_media (last gs) \<and> (\<exists>e. r = Inl e)"
    then obtain gs where "requests s' = requests s @ gs" "gs \<noteq> []" "\<not> is_media (last gs)"
      by blast
    then have "\<not> is_media (last (requests s'))" by simp
    with sent show ?thesis by simp
  qed
  then obtain gs p' where
    reqs: "requests s' = requests s @ gs @ [MediaPost p']" and
    nomedia: "filter is_media gs = []" and
    r: "r = (case respond w (requests s') of
               NetFail \<Rightarrow> Inl TransportError | Body data \<Rightarrow> media_url data)"
    by blast
  have main: "r = media_url data" using r assms(3) by simp
  have e: "\<forall>e. r = Inl e \<longrightarrow> lookup_error e"
    using main by (auto dest: media_url_error)
  have "\<forall>m t v. r \<noteq> Inl (ModuleAPIError m t v)"
    using e by auto
  moreover have "subscript data ''data'' = Inr (JArr []) \<longrightarrow> r = Inl IndexError"
    using main by (simp add: media_url_def)
  moreover have "subscript data ''data'' = Inl (KeyError (JStr ''data'')) \<longrightarrow>
            r = Inl (KeyError (JStr ''data''))"
    using main by (simp add: media_url_def)
  moreover have "length (filter is_media (requests s')) = Suc (length (filter is_media (requests s)))"
    using reqs nomedia by simp
  ultimately show ?thesis using main e by blast
qed

text \<open>
  The claim as stated asks for an API error on an empty \<^verbatim>\<open>data\<close> list: the outcome is
  the \<open>IndexError\<close> of the subscript.
\<close>

theorem empty_media_list_is_index_error:
  "fst (get_track_url (sample_service JNull (JObj [(''data'', JArr [])]) 10)
         (init_client\<lparr>api_token := JStr ''T1''\<rparr>) ''3135556'' (JStr ''tok'') 100 ''FLAC'')
     = Inl IndexError"
  by (simp add: get_track_url_def renew_license_unfold renew_track_token_fresh
        request_media_unfold media_url_def media_payload_def sample_service_def init_client_def)


theorem get_track_url_media_response_witness:
  "fst (get_track_url (sample_service JNull (one_source (JStr ''https://cdn/1'')) 10)
         (init_client\<lparr>api_token := JStr ''T1''\<rparr>) ''3135556'' (JStr ''tok'') 100 ''FLAC'')
     = Inr (JStr ''https://cdn/1'')"
proof -
  let ?w = "sample_service JNull (one_source (JStr ''https://cdn/1'')) 10"
  let ?s = "init_client\<lparr>api_token := JStr ''T1''\<rparr>"
  let ?run = "get_track_url ?w ?s ''3135556'' (JStr ''tok'') 100 ''FLAC''"
  have e1: "?run = (fst ?run, snd ?run)" by simp
  have e2: "requests (snd ?run) =
              [] @ [MediaPost (media_payload (JStr []) ''FLAC'' (JStr ''tok''))]"
    by (simp add: get_track_url_def renew_license_unfold renew_track_token_fresh
          request_media_unfold sample_service_def init_client_def)
  have e3: "respond ?w (requests (snd ?run)) = Body (one_source (JStr ''https://cdn/1''))"
    unfolding e2 by (simp add: sample_service_def)
  have "media_url (one_source (JStr ''https://cdn/1'')) = Inr (JStr ''https://cdn/1'')"
    by (simp add: media_url_def one_source_def)
  with get_track_url_media_response [OF e1 e2 e3] show ?thesis by simp
qed












end
